theory Spec2Isabelle
  imports Complex_Main
begin

section \<open>The Q-learning agent of TD/qlearning.py\<close>

text \<open>
  The module defines one class, \<open>QLearningAgent\<close>. Its fields are the legal-actions
  oracle, the table \<open>_qValues\<close> and the three hyperparameters. Q-values are Python
  numbers; they are modelled as \<open>real\<close>, so \<open>0\<close> and \<open>0.0\<close> are the same value, as
  they are under Python's \<open>==\<close>. Whether a number is an int or a float is not
  recorded; the one place where it matters, the array that \<open>np.argmax\<close> builds in
  \<open>getPolicy\<close>, takes the array's element type as a parameter. Every method that
  touches the table takes the agent and returns the agent it leaves behind, because
  reading a \<open>defaultdict\<close> inserts the default under a missing key.
\<close>

subsection \<open>Library operations the class calls\<close>

datatype error = ValueError | IndexError

text \<open>
  \<open>collections.defaultdict.__getitem__\<close>: a present key is returned as it is; a
  missing key gets the factory's value, which is stored under the key and returned.
\<close>

definition defaultdict_getitem :: "'v \<Rightarrow> ('k \<rightharpoonup> 'v) \<Rightarrow> 'k \<Rightarrow> 'v \<times> ('k \<rightharpoonup> 'v)" where
  "defaultdict_getitem dflt d k =
     (case d k of
        Some v \<Rightarrow> (v, d)
      | None \<Rightarrow> (dflt, d(k \<mapsto> dflt)))"

text \<open>
  The builtin \<open>max\<close> on a list: \<open>ValueError\<close> on the empty list, otherwise a scan that
  replaces the running maximum by an item that is greater.
\<close>

fun py_max :: "real list \<Rightarrow> error + real" where
  "py_max [] = Inl ValueError"
| "py_max (x # xs) = Inr (foldl (\<lambda>m y. if y > m then y else m) x xs)"

text \<open>
  \<open>numpy.argmax\<close> on a list first turns the list into an array, and the array has one
  element type for all items. The type is chosen from the Python types of the items,
  which \<open>real\<close> does not record, so it is a parameter of the model:
  \<^item> \<open>Exact\<close> stands for an array that keeps every item as it is: \<open>int64\<close> for ints
    below \<open>2^63\<close> in size, \<open>uint64\<close> for non-negative ints below \<open>2^64\<close>, \<open>float64\<close> for
    a list of floats, \<open>object\<close> for larger ints;
  \<^item> \<open>Float64\<close> stands for a \<open>float64\<close> array built from a list that holds ints,
    which are cast to doubles: a list mixing ints and floats, or mixing negative ints
    and ints from \<open>2^63\<close> up.
\<close>

datatype dtype = Exact | Float64

text \<open>The number of binary digits of a natural number.\<close>

fun bit_length :: "nat \<Rightarrow> nat" where
  "bit_length n = (if n = 0 then 0 else Suc (bit_length (n div 2)))"

text \<open>
  The cast of an int to a double: an int of at most 53 binary digits is kept; a longer
  one keeps its leading 53 digits, rounded to nearest, a tie going to the even
  neighbour. Only ints below \<open>2^64\<close> in size are ever cast, so the overflow of the
  exponent is left out.
\<close>

definition round_to_double :: "int \<Rightarrow> int" where
  "round_to_double n =
     (let m = nat \<bar>n\<bar>; k = bit_length m in
      if k \<le> 53 then n
      else
        (let ulp = 2 ^ (k - 53);
             q = m div ulp;
             r = m mod ulp;
             half = ulp div 2;
             q' = (if r < half then q else if half < r then q + 1
                   else if even q then q else q + 1)
         in sgn n * int (q' * ulp)))"

text \<open>
  The cast of an item to \<open>float64\<close>. An item that is not a whole number is a Python
  float, a double already, and is kept. A whole number may be a Python int and is
  rounded; a float holding a whole number is a double, which the rounding keeps.
\<close>

definition float64 :: "real \<Rightarrow> real" where
  "float64 x = (if of_int \<lfloor>x\<rfloor> = x then of_int (round_to_double \<lfloor>x\<rfloor>) else x)"

fun astype :: "dtype \<Rightarrow> real \<Rightarrow> real" where
  "astype Exact x = x"
| "astype Float64 x = float64 x"

text \<open>
  \<open>numpy.argmax\<close> itself: \<open>ValueError\<close> on the empty list, otherwise the index of the
  first occurrence of the largest element of the array. The loop carries the next
  index, the best index so far and the element there.
\<close>

fun argmax_loop :: "real list \<Rightarrow> nat \<Rightarrow> nat \<Rightarrow> real \<Rightarrow> nat" where
  "argmax_loop [] i best bv = best"
| "argmax_loop (x # xs) i best bv =
     (if bv < x then argmax_loop xs (Suc i) i x else argmax_loop xs (Suc i) best bv)"

definition np_argmax :: "dtype \<Rightarrow> real list \<Rightarrow> error + nat" where
  "np_argmax dt xs =
     (case map (astype dt) xs of
        [] \<Rightarrow> Inl ValueError
      | y # ys \<Rightarrow> Inr (argmax_loop ys 1 0 y))"

text \<open>Indexing a list with a non-negative index: \<open>IndexError\<close> out of range.\<close>

definition list_getitem :: "'a list \<Rightarrow> nat \<Rightarrow> error + 'a" where
  "list_getitem xs i = (if i < length xs then Inr (xs ! i) else Inl IndexError)"

text \<open>
  \<open>random.choice(seq)\<close>: \<open>IndexError\<close> on an empty sequence, otherwise the item at an
  index drawn below the length. The draw is the parameter \<open>r\<close>, reduced below the
  length.
\<close>

definition random_choice :: "'a list \<Rightarrow> nat \<Rightarrow> error + 'a" where
  "random_choice seq r =
     (if length seq = 0 then Inl IndexError else Inr (seq ! (r mod length seq)))"

subsection \<open>The agent\<close>

record ('s, 'a) agent =
  getLegalActions :: "'s \<Rightarrow> 'a list"
  qValues :: "'s \<rightharpoonup> ('a \<rightharpoonup> real)"
  alpha :: real
  epsilon :: real
  discount :: real

text \<open>\<open>__init__\<close>: the table starts empty.\<close>

definition QLearningAgent ::
  "real \<Rightarrow> real \<Rightarrow> real \<Rightarrow> ('s \<Rightarrow> 'a list) \<Rightarrow> ('s, 'a) agent" where
  "QLearningAgent al ep di gla =
     \<lparr>getLegalActions = gla, qValues = Map.empty, alpha = al, epsilon = ep, discount = di\<rparr>"

text \<open>
  \<open>getQValue\<close> is \<open>self._qValues[state][action]\<close>: two \<open>defaultdict\<close> reads. The row
  read from the outer table is the object stored there, so what the inner read adds to
  the row is visible in the table.
\<close>

definition getQValue :: "('s, 'a) agent \<Rightarrow> 's \<Rightarrow> 'a \<Rightarrow> real \<times> ('s, 'a) agent" where
  "getQValue self state action =
     (let (row, q1) = defaultdict_getitem Map.empty (qValues self) state;
          (v, row') = defaultdict_getitem 0 row action
      in (v, self\<lparr>qValues := q1(state \<mapsto> row')\<rparr>))"

text \<open>
  \<open>setQValue\<close> is \<open>self._qValues[state][action] = value\<close>: a \<open>defaultdict\<close> read of the
  row, then a plain store into it.
\<close>

definition setQValue :: "('s, 'a) agent \<Rightarrow> 's \<Rightarrow> 'a \<Rightarrow> real \<Rightarrow> ('s, 'a) agent" where
  "setQValue self state action val =
     (let (row, q1) = defaultdict_getitem Map.empty (qValues self) state
      in self\<lparr>qValues := q1(state \<mapsto> row(action \<mapsto> val))\<rparr>)"

text \<open>
  The comprehension \<open>[self.getQValue(state, a) for a in possibleActions]\<close>, left to
  right, each read on the agent the previous one left.
\<close>

fun getQValues :: "('s, 'a) agent \<Rightarrow> 's \<Rightarrow> 'a list \<Rightarrow> real list \<times> ('s, 'a) agent" where
  "getQValues self state [] = ([], self)"
| "getQValues self state (a # as) =
     (let (v, self1) = getQValue self state a;
          (vs, self2) = getQValues self1 state as
      in (v # vs, self2))"

definition getValue :: "('s, 'a) agent \<Rightarrow> 's \<Rightarrow> (error + real) \<times> ('s, 'a) agent" where
  "getValue self state =
     (let possibleActions = getLegalActions self state in
      if length possibleActions = 0 then (Inr 0, self)
      else
        (let (qs, self1) = getQValues self state possibleActions
         in (py_max qs, self1)))"

text \<open>
  \<open>getPolicy\<close> hands the list of Q-values to \<open>np.argmax\<close>; \<open>dt\<close> is the element type
  of the array numpy makes of it.
\<close>

definition getPolicy ::
  "('s, 'a) agent \<Rightarrow> dtype \<Rightarrow> 's \<Rightarrow> (error + 'a option) \<times> ('s, 'a) agent" where
  "getPolicy self dt state =
     (let possibleActions = getLegalActions self state in
      if length possibleActions = 0 then (Inr None, self)
      else
        (let (qs, self1) = getQValues self state possibleActions in
         case np_argmax dt qs of
           Inl e \<Rightarrow> (Inl e, self1)
         | Inr i \<Rightarrow>
             (case list_getitem possibleActions i of
                Inl e \<Rightarrow> (Inl e, self1)
              | Inr best_action \<Rightarrow> (Inr (Some best_action), self1))))"

text \<open>
  \<open>getAction\<close> draws \<open>np.random.random()\<close>, a number \<open>u\<close> with \<open>0 \<le> u < 1\<close>, and in the
  exploring branch \<open>random.choice\<close>; both draws are parameters, and so is the element
  type \<open>dt\<close> for the call of \<open>getPolicy\<close>.
\<close>

definition getAction ::
  "('s, 'a) agent \<Rightarrow> dtype \<Rightarrow> real \<Rightarrow> nat \<Rightarrow> 's \<Rightarrow> (error + 'a option) \<times> ('s, 'a) agent" where
  "getAction self dt u r state =
     (let possibleActions = getLegalActions self state in
      if length possibleActions = 0 then (Inr None, self)
      else
        (let eps = epsilon self in
         if u \<le> eps then
           (case random_choice possibleActions r of
              Inl e \<Rightarrow> (Inl e, self)
            | Inr action \<Rightarrow> (Inr (Some action), self))
         else getPolicy self dt state))"

definition update ::
  "('s, 'a) agent \<Rightarrow> 's \<Rightarrow> 'a \<Rightarrow> 's \<Rightarrow> real \<Rightarrow> (error + unit) \<times> ('s, 'a) agent" where
  "update self state action nextState reward =
     (let gamma = discount self;
          learning_rate = alpha self;
          (rv, self1) = getValue self nextState
      in case rv of
           Inl e \<Rightarrow> (Inl e, self1)
         | Inr v \<Rightarrow>
             (let reference_qvalue = reward + gamma * v;
                  (q, self2) = getQValue self1 state action;
                  updated_qvalue = (1 - learning_rate) * q + learning_rate * reference_qvalue
              in (Inr (), setQValue self2 state action updated_qvalue)))"

subsection \<open>Drivers\<close>

text \<open>
  What a driver can do with an agent between construction and a given moment: call a
  method, or assign a hyperparameter field (the module's docstring does
  \<open>agent.epsilon *= 0.99\<close>). A run performs the calls in order and keeps the agent.
\<close>

datatype ('s, 'a) call =
    GetQValue 's 'a
  | SetQValue 's 'a real
  | GetValue 's
  | GetPolicy dtype 's
  | GetAction dtype real nat 's
  | Update 's 'a 's real
  | AssignAlpha real
  | AssignEpsilon real
  | AssignDiscount real

fun perform :: "('s, 'a) agent \<Rightarrow> ('s, 'a) call \<Rightarrow> ('s, 'a) agent" where
  "perform ag (GetQValue s a) = snd (getQValue ag s a)"
| "perform ag (SetQValue s a v) = setQValue ag s a v"
| "perform ag (GetValue s) = snd (getValue ag s)"
| "perform ag (GetPolicy dt s) = snd (getPolicy ag dt s)"
| "perform ag (GetAction dt u r s) = snd (getAction ag dt u r s)"
| "perform ag (Update s a s' rew) = snd (update ag s a s' rew)"
| "perform ag (AssignAlpha x) = ag\<lparr>alpha := x\<rparr>"
| "perform ag (AssignEpsilon x) = ag\<lparr>epsilon := x\<rparr>"
| "perform ag (AssignDiscount x) = ag\<lparr>discount := x\<rparr>"

definition run :: "('s, 'a) agent \<Rightarrow> ('s, 'a) call list \<Rightarrow> ('s, 'a) agent" where
  "run ag cs = foldl perform ag cs"

text \<open>The calls that write the pair \<open>(s, a)\<close>, and the calls that only read Q-values.\<close>

fun writes :: "'s \<Rightarrow> 'a \<Rightarrow> ('s, 'a) call \<Rightarrow> bool" where
  "writes s a (SetQValue s' a' v) = (s' = s \<and> a' = a)"
| "writes s a (Update s' a' n rew) = (s' = s \<and> a' = a)"
| "writes s a c = False"

fun is_read :: "('s, 'a) call \<Rightarrow> bool" where
  "is_read (GetQValue s a) = True"
| "is_read (GetValue s) = True"
| "is_read c = False"

text \<open>
  Two specification functions on the table; the class has no method that reads without
  inserting. \<open>entry\<close> is the entry the table holds for a pair, if any; \<open>stored\<close> is its
  value, a missing row or a missing entry counting as the default.
\<close>

definition entry :: "('s \<rightharpoonup> ('a \<rightharpoonup> real)) \<Rightarrow> 's \<Rightarrow> 'a \<Rightarrow> real option" where
  "entry q s a = (case q s of None \<Rightarrow> None | Some row \<Rightarrow> row a)"

definition stored :: "('s \<rightharpoonup> ('a \<rightharpoonup> real)) \<Rightarrow> 's \<Rightarrow> 'a \<Rightarrow> real" where
  "stored q s a = (case entry q s a of None \<Rightarrow> 0 | Some v \<Rightarrow> v)"

subsection \<open>A small environment\<close>

text \<open>
  States and actions are numbers. State 0 has the actions 0 and 1, state 1 has the
  single action 2, every other state has none. The agent is built with
  \<open>alpha = 0.5\<close>, \<open>epsilon = 0\<close>, \<open>discount = 0.9\<close> and has been told
  \<open>Q(1, 2) = 10\<close>.
\<close>

definition example_actions :: "nat \<Rightarrow> nat list" where
  "example_actions s = (if s = 0 then [0, 1] else if s = 1 then [2] else [])"

definition example_agent :: "(nat, nat) agent" where
  "example_agent = setQValue (QLearningAgent (1 / 2) 0 (9 / 10) example_actions) 1 2 10"

text \<open>
  A second agent, for a state with three actions whose Q-values are the ints
  \<open>2^63\<close>, \<open>-1\<close> and \<open>2^63 + 1\<close>. The first and the last do not fit \<open>int64\<close> and the
  second does not fit \<open>uint64\<close>, so numpy makes a \<open>float64\<close> array of the three.
\<close>

definition three_actions :: "nat \<Rightarrow> nat list" where
  "three_actions s = [0, 1, 2]"

definition large_agent :: "(nat, nat) agent" where
  "large_agent =
     setQValue (setQValue (setQValue (QLearningAgent (1 / 2) 0 (9 / 10) three_actions)
       0 0 (2 ^ 63)) 0 1 (- 1)) 0 2 (2 ^ 63 + 1)"

section \<open>Reads and writes of the table\<close>

lemma getQValue_fst: "fst (getQValue ag s a) = stored (qValues ag) s a"
  by (simp add: getQValue_def defaultdict_getitem_def stored_def entry_def split: option.splits)

lemma getQValue_stored:
  "stored (qValues (snd (getQValue ag s a))) s' a' = stored (qValues ag) s' a'"
  by (simp add: getQValue_def defaultdict_getitem_def stored_def entry_def split: option.splits)

lemma getQValue_fields:
  "getLegalActions (snd (getQValue ag s a)) = getLegalActions ag"
  "alpha (snd (getQValue ag s a)) = alpha ag"
  "epsilon (snd (getQValue ag s a)) = epsilon ag"
  "discount (snd (getQValue ag s a)) = discount ag"
  by (simp_all add: getQValue_def defaultdict_getitem_def split: option.splits)

lemma setQValue_stored:
  "stored (qValues (setQValue ag s a v)) s' a' =
     (if s' = s \<and> a' = a then v else stored (qValues ag) s' a')"
  by (simp add: setQValue_def defaultdict_getitem_def stored_def entry_def split: option.splits)

lemma setQValue_fields:
  "getLegalActions (setQValue ag s a v) = getLegalActions ag"
  "alpha (setQValue ag s a v) = alpha ag"
  "epsilon (setQValue ag s a v) = epsilon ag"
  "discount (setQValue ag s a v) = discount ag"
  by (simp_all add: setQValue_def defaultdict_getitem_def split: option.splits)


lemma getQValues_fst: "fst (getQValues ag s as) = map (stored (qValues ag) s) as"
  by (induction as arbitrary: ag)
     (simp_all add: split_beta Let_def getQValue_fst getQValue_stored)

lemma getQValues_stored:
  "stored (qValues (snd (getQValues ag s as))) s' a' = stored (qValues ag) s' a'"
  by (induction as arbitrary: ag) (simp_all add: split_beta Let_def getQValue_stored)

lemma getQValues_fields:
  "getLegalActions (snd (getQValues ag s as)) = getLegalActions ag"
  "alpha (snd (getQValues ag s as)) = alpha ag"
  "epsilon (snd (getQValues ag s as)) = epsilon ag"
  "discount (snd (getQValues ag s as)) = discount ag"
  by (induction as arbitrary: ag, simp_all add: split_beta Let_def getQValue_fields)+

lemma py_max_Max: "xs \<noteq> [] \<Longrightarrow> py_max xs = Inr (Max (set xs))"
proof (cases xs)
  case Nil
  assume "xs \<noteq> []"
  with Nil show ?thesis by simp
next
  case (Cons x ys)
  have scan: "(\<lambda>m y. if y > m then y else m) = (\<lambda>m y::real. max y m)"
    by (auto simp: fun_eq_iff max_def)
  have "foldl (\<lambda>m y. if y > m then y else m) x ys = fold max ys x"
    unfolding scan by (simp add: foldl_conv_fold)
  then show ?thesis
    using Cons Max.set_eq_fold [of x ys] by simp
qed

lemma getValue_fst:
  "fst (getValue ag s) =
     Inr (if getLegalActions ag s = [] then 0
          else Max (stored (qValues ag) s ` set (getLegalActions ag s)))"
proof (cases "getLegalActions ag s = []")
  case True
  then show ?thesis by (simp add: getValue_def)
next
  case False
  then have "map (stored (qValues ag) s) (getLegalActions ag s) \<noteq> []" by simp
  from py_max_Max [OF this] False show ?thesis
    by (simp add: getValue_def split_beta Let_def getQValues_fst)
qed

lemma getValue_stored:
  "stored (qValues (snd (getValue ag s))) s' a' = stored (qValues ag) s' a'"
  by (simp add: getValue_def split_beta Let_def getQValues_stored)

lemma getValue_fields:
  "getLegalActions (snd (getValue ag s)) = getLegalActions ag"
  "alpha (snd (getValue ag s)) = alpha ag"
  "epsilon (snd (getValue ag s)) = epsilon ag"
  "discount (snd (getValue ag s)) = discount ag"
  by (simp_all add: getValue_def split_beta Let_def getQValues_fields)

lemma argmax_loop_first:
  assumes "best < length pre" "pre ! best = bv" "\<forall>j<length pre. pre ! j \<le> bv"
    "\<forall>j<best. pre ! j < bv"
  shows "argmax_loop xs (length pre) best bv < length (pre @ xs) \<and>
         (\<forall>j<length (pre @ xs). (pre @ xs) ! j \<le> (pre @ xs) ! argmax_loop xs (length pre) best bv) \<and>
         (\<forall>j<argmax_loop xs (length pre) best bv. (pre @ xs) ! j < (pre @ xs) ! argmax_loop xs (length pre) best bv)"
  using assms
proof (induction xs arbitrary: pre best bv)
  case Nil
  then show ?case by simp
next
  case (Cons x xs)
  let ?pre = "pre @ [x]"
  show ?case
  proof (cases "bv < x")
    case True
    have a: "length pre < length ?pre" by simp
    have b: "?pre ! length pre = x" by simp
    have c: "\<forall>j<length ?pre. ?pre ! j \<le> x"
      using Cons.prems(3) True by (auto simp: nth_append less_Suc_eq)
    have d: "\<forall>j<length pre. ?pre ! j < x"
      using Cons.prems(3) True by (auto simp: nth_append)
    from Cons.IH [of "length pre" ?pre x, OF a b c d] True show ?thesis by simp
  next
    case False
    have a: "best < length ?pre" using Cons.prems(1) by simp
    have b: "?pre ! best = bv" using Cons.prems(1,2) by (simp add: nth_append)
    have c: "\<forall>j<length ?pre. ?pre ! j \<le> bv"
      using Cons.prems(3) False by (auto simp: nth_append less_Suc_eq)
    have d: "\<forall>j<best. ?pre ! j < bv"
      using Cons.prems(1,4) by (auto simp: nth_append)
    from Cons.IH [of best ?pre bv, OF a b c d] False show ?thesis by simp
  qed
qed

lemma np_argmax_first:
  assumes "xs \<noteq> []"
  shows "\<exists>k. np_argmax dt xs = Inr k \<and> k < length xs \<and>
             astype dt (xs ! k) = Max (astype dt ` set xs) \<and>
             (\<forall>j<k. astype dt (xs ! j) \<noteq> Max (astype dt ` set xs))"
proof -
  let ?zs = "map (astype dt) xs"
  from assms obtain x ys where zs: "?zs = x # ys" by (cases xs) auto
  let ?k = "argmax_loop ys 1 0 x"
  have "?k < length ([x] @ ys) \<and>
        (\<forall>j<length ([x] @ ys). ([x] @ ys) ! j \<le> ([x] @ ys) ! ?k) \<and>
        (\<forall>j<?k. ([x] @ ys) ! j < ([x] @ ys) ! ?k)"
    using argmax_loop_first [of 0 "[x]" x ys] by simp
  then have k: "?k < length ?zs" and ub: "\<forall>j<length ?zs. ?zs ! j \<le> ?zs ! ?k"
    and lt: "\<forall>j<?k. ?zs ! j < ?zs ! ?k"
    unfolding zs by simp_all
  have "?zs ! ?k \<in> set ?zs" using k by (intro nth_mem)
  moreover have "\<forall>y\<in>set ?zs. y \<le> ?zs ! ?k" using ub by (auto simp: in_set_conv_nth)
  ultimately have "Max (set ?zs) = ?zs ! ?k" by (intro Max_eqI) auto
  then have M: "Max (astype dt ` set xs) = ?zs ! ?k" by simp
  have klen: "?k < length xs" using k by simp
  have "np_argmax dt xs = Inr ?k" by (simp add: np_argmax_def zs)
  moreover have "astype dt (xs ! ?k) = Max (astype dt ` set xs)"
    using klen M by simp
  moreover have "\<forall>j<?k. astype dt (xs ! j) \<noteq> Max (astype dt ` set xs)"
  proof (intro allI impI)
    fix j assume j: "j < ?k"
    with lt have "?zs ! j < ?zs ! ?k" by simp
    moreover have "?zs ! j = astype dt (xs ! j)" using j klen by simp
    ultimately show "astype dt (xs ! j) \<noteq> Max (astype dt ` set xs)" using M by simp
  qed
  ultimately show ?thesis using klen by blast
qed

lemma getPolicy_fst:
  assumes "getLegalActions ag s \<noteq> []"
  shows "fst (getPolicy ag dt s) =
           Inr (find (\<lambda>a. astype dt (stored (qValues ag) s a) =
                          Max ((\<lambda>a. astype dt (stored (qValues ag) s a)) `
                               set (getLegalActions ag s)))
                  (getLegalActions ag s))"
proof -
  let ?A = "getLegalActions ag s"
  let ?f = "stored (qValues ag) s"
  let ?g = "\<lambda>a. astype dt (?f a)"
  let ?M = "Max (?g ` set ?A)"
  from assms have "map ?f ?A \<noteq> []" by simp
  from np_argmax_first [OF this, of dt] obtain k where
    k: "np_argmax dt (map ?f ?A) = Inr k" "k < length ?A" "?g (?A ! k) = ?M"
    and first: "\<forall>j<k. ?g (?A ! j) \<noteq> ?M"
    by (auto simp: image_image)
  have "find (\<lambda>a. ?g a = ?M) ?A = Some (?A ! k)"
    unfolding find_Some_iff using k first by blast
  moreover have "fst (getPolicy ag dt s) = Inr (Some (?A ! k))"
    using assms k
    by (simp add: getPolicy_def split_beta Let_def getQValues_fst list_getitem_def)
  ultimately show ?thesis by simp
qed

lemma getPolicy_empty: "getLegalActions ag s = [] \<Longrightarrow> getPolicy ag dt s = (Inr None, ag)"
  by (simp add: getPolicy_def)

lemma snd_getPolicy: "snd (getPolicy ag dt s) = snd (getValue ag s)"
  by (simp add: getPolicy_def getValue_def split_beta Let_def
           split: sum.splits)

lemma getAction_explore:
  "getLegalActions ag s \<noteq> [] \<Longrightarrow> u \<le> epsilon ag \<Longrightarrow>
     getAction ag dt u r s =
       (Inr (Some (getLegalActions ag s ! (r mod length (getLegalActions ag s)))), ag)"
  by (simp add: getAction_def random_choice_def Let_def)

lemma getAction_exploit:
  "getLegalActions ag s \<noteq> [] \<Longrightarrow> \<not> u \<le> epsilon ag \<Longrightarrow>
     getAction ag dt u r s = getPolicy ag dt s"
  by (simp add: getAction_def Let_def)

lemma getAction_empty:
  "getLegalActions ag s = [] \<Longrightarrow> getAction ag dt u r s = (Inr None, ag)"
  by (simp add: getAction_def)

lemma snd_getAction:
  "snd (getAction ag dt u r s) = ag \<or> snd (getAction ag dt u r s) = snd (getValue ag s)"
  by (cases "getLegalActions ag s = []"; cases "u \<le> epsilon ag")
     (simp_all add: getAction_empty getAction_explore getAction_exploit snd_getPolicy)

lemma update_fst: "fst (update ag s a n rew) = Inr ()"
proof -
  obtain v where "fst (getValue ag n) = Inr v" using getValue_fst [of ag n] by simp
  then show ?thesis by (simp add: update_def split_beta Let_def)
qed

lemma update_snd:
  "snd (update ag s a n rew) =
     setQValue (snd (getQValue (snd (getValue ag n)) s a)) s a
       ((1 - alpha ag) * stored (qValues ag) s a +
        alpha ag * (rew + discount ag *
          (if getLegalActions ag n = [] then 0
           else Max (stored (qValues ag) n ` set (getLegalActions ag n)))))"
proof -
  let ?V = "if getLegalActions ag n = [] then 0
            else Max (stored (qValues ag) n ` set (getLegalActions ag n))"
  have "fst (getValue ag n) = Inr ?V" using getValue_fst [of ag n] by simp
  then show ?thesis
    by (simp add: update_def split_beta Let_def getQValue_fst getValue_stored)
qed

lemma update_stored:
  "stored (qValues (snd (update ag s a n rew))) s' a' =
     (if s' = s \<and> a' = a
      then (1 - alpha ag) * stored (qValues ag) s a +
           alpha ag * (rew + discount ag *
             (if getLegalActions ag n = [] then 0
              else Max (stored (qValues ag) n ` set (getLegalActions ag n))))
      else stored (qValues ag) s' a')"
  by (simp add: update_snd setQValue_stored getQValue_stored getValue_stored)

lemma update_fields:
  "getLegalActions (snd (update ag s a n rew)) = getLegalActions ag"
  "alpha (snd (update ag s a n rew)) = alpha ag"
  "epsilon (snd (update ag s a n rew)) = epsilon ag"
  "discount (snd (update ag s a n rew)) = discount ag"
  by (simp_all add: update_snd setQValue_fields getQValue_fields getValue_fields)

lemma perform_stored:
  "\<not> writes s a c \<Longrightarrow> stored (qValues (perform ag c)) s a = stored (qValues ag) s a"
proof (cases c)
  case (GetAction dt u r s')
  then show ?thesis using snd_getAction [of ag dt u r s'] by (auto simp: getValue_stored)
qed (auto simp: getQValue_stored setQValue_stored getValue_stored snd_getPolicy update_stored)

lemma perform_getLegalActions: "getLegalActions (perform ag c) = getLegalActions ag"
proof (cases c)
  case (GetAction dt u r s')
  then show ?thesis using snd_getAction [of ag dt u r s'] by (auto simp: getValue_fields)
qed (auto simp: getQValue_fields setQValue_fields getValue_fields snd_getPolicy update_fields)

lemma run_stored:
  "\<forall>c\<in>set cs. \<not> writes s a c \<Longrightarrow> stored (qValues (run ag cs)) s a = stored (qValues ag) s a"
  unfolding run_def by (induction cs arbitrary: ag) (simp_all add: perform_stored)

lemma run_getLegalActions: "getLegalActions (run ag cs) = getLegalActions ag"
  unfolding run_def by (induction cs arbitrary: ag) (simp_all add: perform_getLegalActions)


lemma getQValue_entry:
  "entry (qValues (snd (getQValue ag s a))) s' a' =
     (if s' = s \<and> a' = a \<and> entry (qValues ag) s a = None then Some 0
      else entry (qValues ag) s' a')"
  by (simp add: getQValue_def defaultdict_getitem_def entry_def split: option.splits)

lemma getQValue_entry_grows:
  "entry (qValues (snd (getQValue ag s a))) s' a' = entry (qValues ag) s' a' \<or>
   entry (qValues ag) s' a' = None \<and> entry (qValues (snd (getQValue ag s a))) s' a' = Some 0"
  by (simp add: getQValue_entry)

lemma getQValues_entry_grows:
  "entry (qValues (snd (getQValues ag s as))) s' a' = entry (qValues ag) s' a' \<or>
   entry (qValues ag) s' a' = None \<and> entry (qValues (snd (getQValues ag s as))) s' a' = Some 0"
proof (induction as arbitrary: ag)
  case Nil
  then show ?case by simp
next
  case (Cons b bs)
  let ?ag1 = "snd (getQValue ag s b)"
  have step: "snd (getQValues ag s (b # bs)) = snd (getQValues ?ag1 s bs)"
    by (simp add: split_beta Let_def)
  from Cons.IH [of ?ag1] getQValue_entry_grows [of ag s b s' a'] show ?case
    unfolding step by auto
qed

lemma getValue_entry_grows:
  "entry (qValues (snd (getValue ag s))) s' a' = entry (qValues ag) s' a' \<or>
   entry (qValues ag) s' a' = None \<and> entry (qValues (snd (getValue ag s))) s' a' = Some 0"
  using getQValues_entry_grows [of ag s "getLegalActions ag s" s' a']
  by (simp add: getValue_def split_beta Let_def)

lemma is_read_not_writes: "is_read c \<Longrightarrow> \<not> writes s a c"
  by (cases c) simp_all

lemma reads_entry_grows:
  "\<forall>c\<in>set cs. is_read c \<Longrightarrow>
     entry (qValues (run ag cs)) s a = entry (qValues ag) s a \<or>
     entry (qValues ag) s a = None \<and> entry (qValues (run ag cs)) s a = Some 0"
proof (induction cs arbitrary: ag)
  case Nil
  then show ?case by (simp add: run_def)
next
  case (Cons c cs)
  have one: "entry (qValues (perform ag c)) s a = entry (qValues ag) s a \<or>
     entry (qValues ag) s a = None \<and> entry (qValues (perform ag c)) s a = Some 0"
  proof (cases c)
    case (GetQValue s1 a1)
    then show ?thesis using getQValue_entry_grows [of ag s1 a1 s a] by simp
  next
    case (GetValue s1)
    then show ?thesis using getValue_entry_grows [of ag s1 s a] by simp
  qed (use Cons.prems in simp_all)
  have "run ag (c # cs) = run (perform ag c) cs" by (simp add: run_def)
  with Cons.IH [of "perform ag c"] Cons.prems one show ?case by auto
qed

lemma getValue_cong:
  "getLegalActions ag' s = getLegalActions ag s \<Longrightarrow>
   (\<forall>a. stored (qValues ag') s a = stored (qValues ag) s a) \<Longrightarrow>
   fst (getValue ag' s) = fst (getValue ag s)"
proof -
  assume A: "getLegalActions ag' s = getLegalActions ag s"
    and "\<forall>a. stored (qValues ag') s a = stored (qValues ag) s a"
  then have "stored (qValues ag') s = stored (qValues ag) s" by (simp add: fun_eq_iff)
  with A show ?thesis by (simp add: getValue_fst)
qed

lemma getPolicy_cong:
  "getLegalActions ag' s = getLegalActions ag s \<Longrightarrow>
   (\<forall>a. stored (qValues ag') s a = stored (qValues ag) s a) \<Longrightarrow>
   fst (getPolicy ag' dt s) = fst (getPolicy ag dt s)"
proof -
  assume A: "getLegalActions ag' s = getLegalActions ag s"
    and S: "\<forall>a. stored (qValues ag') s a = stored (qValues ag) s a"
  show ?thesis
  proof (cases "getLegalActions ag s = []")
    case True
    with A show ?thesis by (simp add: getPolicy_empty)
  next
    case False
    with A S show ?thesis by (simp add: getPolicy_fst)
  qed
qed

lemma getPolicy_legal:
  assumes "getLegalActions ag s \<noteq> []"
  shows "\<exists>i<length (getLegalActions ag s).
           fst (getPolicy ag dt s) = Inr (Some (getLegalActions ag s ! i)) \<and>
           astype dt (stored (qValues ag) s (getLegalActions ag s ! i)) =
             Max ((\<lambda>a. astype dt (stored (qValues ag) s a)) ` set (getLegalActions ag s)) \<and>
           (\<forall>j<i. astype dt (stored (qValues ag) s (getLegalActions ag s ! j)) \<noteq>
             Max ((\<lambda>a. astype dt (stored (qValues ag) s a)) ` set (getLegalActions ag s)))"
proof -
  let ?A = "getLegalActions ag s"
  let ?g = "\<lambda>a. astype dt (stored (qValues ag) s a)"
  let ?P = "\<lambda>a. ?g a = Max (?g ` set ?A)"
  have "Max (?g ` set ?A) \<in> ?g ` set ?A"
    using assms by (intro Max_in) simp_all
  then obtain a where "a \<in> set ?A" "?P a" by auto
  then have "find ?P ?A \<noteq> None" by (auto simp: find_None_iff)
  then obtain b where b: "find ?P ?A = Some b" by auto
  then obtain i where "i < length ?A" "?P (?A ! i)" "b = ?A ! i" "\<forall>j<i. \<not> ?P (?A ! j)"
    unfolding find_Some_iff by blast
  with b getPolicy_fst [OF assms, of dt] show ?thesis by auto
qed

lemma bit_length_values:
  "bit_length (Suc 0) = 1"
  "bit_length 9223372036854775808 = 64"
  "bit_length 9223372036854775809 = 64"
  by simp_all

lemma float64_of_int: "float64 (of_int n) = of_int (round_to_double n)"
  by (simp add: float64_def)

lemma float64_values:
  "float64 (2 ^ 63) = 2 ^ 63"
  "float64 (- 1) = - 1"
  "float64 (2 ^ 63 + 1) = 2 ^ 63"
proof -
  have "round_to_double (2 ^ 63) = 2 ^ 63" "round_to_double (- 1) = - 1"
    "round_to_double (2 ^ 63 + 1) = 2 ^ 63"
    by (simp_all add: round_to_double_def bit_length_values Let_def)
  then show "float64 (2 ^ 63) = 2 ^ 63" "float64 (- 1) = - 1"
    "float64 (2 ^ 63 + 1) = 2 ^ 63"
    using float64_of_int [of "2 ^ 63"] float64_of_int [of "- 1"]
      float64_of_int [of "2 ^ 63 + 1"]
    by simp_all
qed

lemma large_agent_fields: "getLegalActions large_agent = three_actions"
  by (simp add: large_agent_def setQValue_fields QLearningAgent_def)

lemma example_agent_fields:
  "getLegalActions example_agent = example_actions"
  "alpha example_agent = 1 / 2"
  "epsilon example_agent = 0"
  "discount example_agent = 9 / 10"
  by (simp_all add: example_agent_def setQValue_fields QLearningAgent_def)

lemma fresh_stored: "stored (qValues (QLearningAgent al ep di gla)) s a = 0"
  by (simp add: QLearningAgent_def stored_def entry_def)

lemma example_agent_stored:
  "stored (qValues example_agent) s a = (if s = 1 \<and> a = 2 then 10 else 0)"
  by (simp add: example_agent_def setQValue_stored fresh_stored)

lemma setQValue_row:
  "\<exists>row. qValues (setQValue ag s a v) s = Some row \<and> row a = Some v"
  by (simp add: setQValue_def defaultdict_getitem_def split: option.splits)

lemma reads_stored:
  "\<forall>c\<in>set cs. is_read c \<Longrightarrow> stored (qValues (run ag cs)) s a = stored (qValues ag) s a"
  by (rule run_stored) (simp add: is_read_not_writes)

lemma large_agent_stored:
  "stored (qValues large_agent) 0 a =
     (if a = 2 then 2 ^ 63 + 1 else if a = 1 then - 1 else if a = 0 then 2 ^ 63 else 0)"
  by (simp add: large_agent_def setQValue_stored fresh_stored)

text \<open>
  Where the array keeps the Q-values as they are, \<open>getPolicy\<close> returns the action at
  the first index whose Q-value is the maximum.
\<close>

lemma getPolicy_exact_first_maximum:
  assumes "getLegalActions ag s \<noteq> []"
  shows "\<exists>i<length (getLegalActions ag s).
            fst (getPolicy ag Exact s) = Inr (Some (getLegalActions ag s ! i)) \<and>
            fst (getQValue ag s (getLegalActions ag s ! i)) =
              Max ((\<lambda>a. fst (getQValue ag s a)) ` set (getLegalActions ag s)) \<and>
            (\<forall>j<i. fst (getQValue ag s (getLegalActions ag s ! j)) \<noteq>
              Max ((\<lambda>a. fst (getQValue ag s a)) ` set (getLegalActions ag s)))"
  using getPolicy_legal [OF assms, of Exact] by (simp add: getQValue_fst)

lemma getPolicy_repeatable:
  "fst (getPolicy (snd (getPolicy ag dt s)) dt s) = fst (getPolicy ag dt s)"
  by (rule getPolicy_cong) (simp_all add: snd_getPolicy getValue_fields getValue_stored)

section \<open>The claims\<close>

text \<open>
  C1. For every state, action, next state and reward, \<open>update\<close> returns normally and
  stores at \<open>(state, action)\<close> exactly
  \<open>(1 - alpha) * getQValue(state, action) + alpha * (reward + discount * getValue(nextState))\<close>,
  both reads taken on the agent as it was before the call; \<open>getQValue\<close> then returns
  that value. In particular, with \<open>alpha = 0.5\<close>, \<open>discount = 0.9\<close>, a prior
  \<open>Q(state, action) = 0\<close>, a next state whose only legal action \<open>b\<close> has
  \<open>Q(nextState, b) = 10\<close>, and reward 5, \<open>getQValue(state, action)\<close> is 7 after the
  update.
\<close>
theorem update_stores_td_value:
  "(\<exists>v row. fst (getValue ag n) = Inr v \<and>
      fst (update ag s a n rew) = Inr () \<and>
      qValues (snd (update ag s a n rew)) s = Some row \<and>
      row a = Some ((1 - alpha ag) * fst (getQValue ag s a) +
                    alpha ag * (rew + discount ag * v)) \<and>
      fst (getQValue (snd (update ag s a n rew)) s a) =
        (1 - alpha ag) * fst (getQValue ag s a) + alpha ag * (rew + discount ag * v)) \<and>
   (alpha ag = 1 / 2 \<and> discount ag = 9 / 10 \<and> fst (getQValue ag s a) = 0 \<and>
    getLegalActions ag n = [b] \<and> fst (getQValue ag n b) = 10 \<longrightarrow>
      fst (getQValue (snd (update ag s a n 5)) s a) = 7)"
proof (intro conjI impI)
  let ?V = "if getLegalActions ag n = [] then 0
            else Max (stored (qValues ag) n ` set (getLegalActions ag n))"
  let ?new = "(1 - alpha ag) * stored (qValues ag) s a + alpha ag * (rew + discount ag * ?V)"
  obtain row where "qValues (snd (update ag s a n rew)) s = Some row" "row a = Some ?new"
    unfolding update_snd using setQValue_row by fastforce
  moreover have "fst (getValue ag n) = Inr ?V" by (simp add: getValue_fst)
  moreover have "fst (getQValue (snd (update ag s a n rew)) s a) = ?new"
    by (simp add: getQValue_fst update_stored)
  ultimately show "\<exists>v row. fst (getValue ag n) = Inr v \<and>
      fst (update ag s a n rew) = Inr () \<and>
      qValues (snd (update ag s a n rew)) s = Some row \<and>
      row a = Some ((1 - alpha ag) * fst (getQValue ag s a) +
                    alpha ag * (rew + discount ag * v)) \<and>
      fst (getQValue (snd (update ag s a n rew)) s a) =
        (1 - alpha ag) * fst (getQValue ag s a) + alpha ag * (rew + discount ag * v)"
    by (simp add: update_fst getQValue_fst)
next
  assume "alpha ag = 1 / 2 \<and> discount ag = 9 / 10 \<and> fst (getQValue ag s a) = 0 \<and>
    getLegalActions ag n = [b] \<and> fst (getQValue ag n b) = 10"
  then show "fst (getQValue (snd (update ag s a n 5)) s a) = 7"
    by (simp add: getQValue_fst update_stored)
qed

theorem update_stores_td_value_witness:
  "alpha example_agent = 1 / 2 \<and> discount example_agent = 9 / 10 \<and>
   fst (getQValue example_agent 0 0) = 0 \<and> getLegalActions example_agent 1 = [2] \<and>
   fst (getQValue example_agent 1 2) = 10 \<and>
   fst (getQValue (snd (update example_agent 0 0 1 5)) 0 0) = 7"
  using update_stores_td_value [where ag = example_agent and n = 1 and s = 0 and a = 0
      and rew = 5 and b = 2]
  by (simp add: example_agent_fields example_actions_def getQValue_fst example_agent_stored)

text \<open>
  C2. For every state \<open>s\<close>, \<open>getValue(s)\<close> returns 0 when the oracle returns no action
  for \<open>s\<close>, and otherwise the maximum of \<open>getQValue(s, a)\<close> over the actions \<open>a\<close> the
  oracle returns; it raises in neither case.
\<close>
theorem getValue_is_maximum:
  "fst (getValue ag s) =
     Inr (if getLegalActions ag s = [] then 0
          else Max ((\<lambda>a. fst (getQValue ag s a)) ` set (getLegalActions ag s)))"
  by (simp add: getValue_fst getQValue_fst)

theorem getValue_is_maximum_witness:
  "fst (getValue example_agent 1) = Inr 10 \<and> fst (getValue example_agent 5) = Inr 0 \<and>
   fst (getValue (setQValue example_agent 0 1 3) 0) = Inr 3"
  using getValue_is_maximum [of example_agent 1] getValue_is_maximum [of example_agent 5]
    getValue_is_maximum [of "setQValue example_agent 0 1 3" 0]
  by (simp add: example_agent_fields example_actions_def getQValue_fst example_agent_stored
      setQValue_fields setQValue_stored)

text \<open>
  C3. The claim is that \<open>getPolicy(s)\<close> returns the first action whose Q-value is the
  maximum over the legal actions. The code breaks it where \<open>np.argmax\<close> casts the
  Q-values to doubles before comparing them. In state 0 of the second agent the
  Q-values of the actions 0, 1, 2 are \<open>2^63\<close>, \<open>-1\<close>, \<open>2^63 + 1\<close>; \<open>getValue\<close> returns the
  maximum \<open>2^63 + 1\<close>, the Q-value of action 2, but in the \<open>float64\<close> array the first
  and the last are the same double and \<open>getPolicy\<close> returns action 0.
\<close>

theorem getPolicy_float64_not_maximum:
  "getLegalActions large_agent 0 = [0, 1, 2] \<and>
   fst (getQValue large_agent 0 0) = 2 ^ 63 \<and>
   fst (getQValue large_agent 0 1) = - 1 \<and>
   fst (getQValue large_agent 0 2) = 2 ^ 63 + 1 \<and>
   fst (getValue large_agent 0) = Inr (2 ^ 63 + 1) \<and>
   fst (getPolicy large_agent Float64 0) = Inr (Some 0)"
proof -
  have acts: "getLegalActions large_agent 0 = [0, 1, 2]"
    by (simp add: large_agent_fields three_actions_def)
  then have ne: "getLegalActions large_agent 0 \<noteq> []" by simp
  have val: "fst (getValue large_agent 0) = Inr (2 ^ 63 + 1)"
    by (simp add: getValue_fst acts large_agent_stored)
  have pol: "fst (getPolicy large_agent Float64 0) = Inr (Some 0)"
    unfolding getPolicy_fst [OF ne] acts
    by (simp add: large_agent_stored float64_values [simplified])
  from acts val pol show ?thesis by (simp add: getQValue_fst large_agent_stored)
qed

text \<open>
  C4 as stated, for every draw \<open>u\<close> in \<open>[0, 1)\<close>, fails at \<open>u = 0\<close>: the test
  \<open>u <= epsilon\<close> is inclusive, so with \<open>epsilon = 0\<close> the draw 0 takes the exploring
  branch. In state 0 of the example, \<open>random.choice\<close> picking index 1 returns action 1
  while \<open>getPolicy\<close> returns action 0.
\<close>

theorem getAction_epsilon_zero_counterexample:
  "epsilon example_agent = 0 \<and> getLegalActions example_agent 0 \<noteq> [] \<and>
   (0::real) \<le> 0 \<and> (0::real) < 1 \<and>
   fst (getAction example_agent Exact 0 1 0) = Inr (Some 1) \<and>
   fst (getPolicy example_agent Exact 0) = Inr (Some 0)"
proof -
  have ne: "getLegalActions example_agent 0 \<noteq> []"
    by (simp add: example_agent_fields example_actions_def)
  have "fst (getPolicy example_agent Exact 0) = Inr (Some 0)"
    unfolding getPolicy_fst [OF ne]
    by (simp add: example_agent_fields example_actions_def example_agent_stored)
  moreover have "fst (getAction example_agent Exact 0 1 0) = Inr (Some 1)"
    using ne by (simp add: getAction_explore example_agent_fields example_actions_def)
  ultimately show ?thesis using ne by (simp add: example_agent_fields)
qed

text \<open>
  C4, amended. With \<open>epsilon = 0\<close>, for every state \<open>s\<close> with a legal action and every
  draw \<open>u\<close> with \<open>0 < u < 1\<close>, \<open>getAction(s)\<close> is \<open>getPolicy(s)\<close>, result and agent left
  behind; a further call with such a draw returns the same action again.
\<close>

theorem getAction_exploits_above_zero:
  assumes "epsilon ag = 0" "getLegalActions ag s \<noteq> []" "0 < u" "u < 1"
  shows "getAction ag dt u r s = getPolicy ag dt s \<and>
         (\<forall>u' r'. 0 < u' \<and> u' < 1 \<longrightarrow>
            fst (getAction (snd (getAction ag dt u r s)) dt u' r' s) = fst (getPolicy ag dt s))"
proof -
  let ?ag1 = "snd (getPolicy ag dt s)"
  have first: "getAction ag dt u r s = getPolicy ag dt s"
    using assms by (simp add: getAction_exploit)
  have eps: "epsilon ?ag1 = 0" and acts: "getLegalActions ?ag1 s \<noteq> []"
    using assms by (simp_all add: snd_getPolicy getValue_fields)
  have again: "fst (getPolicy ?ag1 dt s) = fst (getPolicy ag dt s)"
    by (rule getPolicy_cong) (simp_all add: snd_getPolicy getValue_fields getValue_stored)
  have "fst (getAction ?ag1 dt u' r' s) = fst (getPolicy ag dt s)" if "0 < u'" for u' r'
    using that eps acts again by (simp add: getAction_exploit)
  with first show ?thesis by simp
qed

theorem getAction_exploits_above_zero_witness:
  "epsilon example_agent = 0 \<and> getLegalActions example_agent 0 \<noteq> [] \<and>
   (0::real) < 1 / 2 \<and> (1 / 2 ::real) < 1 \<and>
   getAction example_agent Exact (1 / 2) 1 0 = getPolicy example_agent Exact 0"
proof -
  have ne: "getLegalActions example_agent 0 \<noteq> []"
    by (simp add: example_agent_fields example_actions_def)
  have eps: "epsilon example_agent = 0" by (simp add: example_agent_fields)
  from getAction_exploits_above_zero [where dt = Exact and u = "1 / 2" and r = 1, OF eps ne] ne eps show ?thesis by simp
qed

text \<open>
  C5 as stated, reads never create entries, fails: the table of the example agent has
  no row for state 0, and has one after \<open>getQValue(0, 0)\<close> and after \<open>getValue(0)\<close>.
\<close>

theorem reads_insert_entries_counterexample:
  "qValues example_agent 0 = None \<and>
   qValues (snd (getQValue example_agent 0 0)) 0 \<noteq> None \<and>
   qValues (snd (getValue example_agent 0)) 0 \<noteq> None"
  by (simp add: example_agent_def QLearningAgent_def setQValue_def getValue_def getQValue_def
      defaultdict_getitem_def example_actions_def)

text \<open>
  C5, amended. Calling \<open>getQValue\<close> and \<open>getValue\<close> any number of times, with no
  \<open>setQValue\<close> or \<open>update\<close> in between, changes no value that \<open>getQValue\<close> or
  \<open>getValue\<close> returns, and removes or modifies no entry of the table; the only entries
  it creates hold the default 0.
\<close>

theorem reads_keep_values:
  assumes "\<forall>c\<in>set cs. is_read c"
  shows "fst (getQValue (run ag cs) s a) = fst (getQValue ag s a) \<and>
         fst (getValue (run ag cs) s) = fst (getValue ag s) \<and>
         (entry (qValues (run ag cs)) s a = entry (qValues ag) s a \<or>
          entry (qValues ag) s a = None \<and> entry (qValues (run ag cs)) s a = Some 0)"
proof (intro conjI)
  show "fst (getQValue (run ag cs) s a) = fst (getQValue ag s a)"
    by (simp add: getQValue_fst reads_stored [OF assms])
  show "fst (getValue (run ag cs) s) = fst (getValue ag s)"
    by (rule getValue_cong) (simp_all add: run_getLegalActions reads_stored [OF assms])
  show "entry (qValues (run ag cs)) s a = entry (qValues ag) s a \<or>
        entry (qValues ag) s a = None \<and> entry (qValues (run ag cs)) s a = Some 0"
    by (rule reads_entry_grows [OF assms])
qed

theorem reads_keep_values_witness:
  "is_read (GetQValue (0::nat) (0::nat)) \<and> is_read (GetValue (1::nat) :: (nat, nat) call) \<and>
   fst (getQValue (run example_agent [GetQValue 0 0, GetValue 1, GetQValue 0 0]) 1 2) = 10 \<and>
   fst (getValue (run example_agent [GetQValue 0 0, GetValue 1, GetQValue 0 0]) 1) = Inr 10"
  using reads_keep_values [of "[GetQValue 0 0, GetValue 1, GetQValue 0 0]" example_agent 1 2]
  by (simp add: getQValue_fst getValue_fst example_agent_stored example_agent_fields
      example_actions_def)

text \<open>
  C6. Start from a freshly constructed agent and let a driver perform any calls and
  field assignments. If none of them is a \<open>setQValue\<close> or an \<open>update\<close> of the pair
  \<open>(s, a)\<close>, then \<open>getQValue(s, a)\<close> returns 0; with no calls at all this is the read
  of a pair that was never inserted.
\<close>
theorem unwritten_pair_reads_zero:
  assumes "\<forall>c\<in>set cs. \<not> writes s a c"
  shows "fst (getQValue (run (QLearningAgent al ep di gla) cs) s a) = 0"
proof -
  have "stored (qValues (QLearningAgent al ep di gla)) s a = 0"
    by (simp add: QLearningAgent_def stored_def entry_def)
  with run_stored [OF assms] show ?thesis by (simp add: getQValue_fst)
qed

theorem unwritten_pair_reads_zero_witness:
  "\<not> writes (0::nat) (0::nat) (SetQValue 0 1 5) \<and>
   \<not> writes (0::nat) (0::nat) (GetValue 0) \<and>
   \<not> writes (0::nat) (0::nat) (Update 1 2 0 3) \<and>
   \<not> writes (0::nat) (0::nat) (AssignAlpha 1) \<and>
   fst (getQValue (run (QLearningAgent (1 / 2) 0 (9 / 10) example_actions)
          [SetQValue 0 1 5, GetValue 0, Update 1 2 0 3, AssignAlpha 1]) 0 0) = 0"
  using unwritten_pair_reads_zero [of "[SetQValue 0 1 5, GetValue 0, Update 1 2 0 3, AssignAlpha 1]" 0 0
      "1 / 2" 0 "9 / 10" example_actions]
  by simp

text \<open>
  C7. For every state \<open>s\<close>, action \<open>a\<close> and value \<open>v\<close>, \<open>setQValue(s, a, v)\<close> followed
  immediately by \<open>getQValue(s, a)\<close> returns exactly \<open>v\<close>, whatever the table held
  before; the read finds the entry and leaves the agent as the write left it.
\<close>
theorem setQValue_then_getQValue:
  "getQValue (setQValue ag s a v) s a = (v, setQValue ag s a v)"
  by (simp add: getQValue_def setQValue_def defaultdict_getitem_def split: option.splits)

text \<open>
  C8. For every state \<open>s\<close> with no legal action, \<open>getValue(s)\<close> returns 0 and
  \<open>getPolicy(s)\<close> and \<open>getAction(s)\<close> return \<open>None\<close>, which is no action, all three
  leaving the agent untouched. This is the only special case: for a state with a legal
  action, \<open>getPolicy\<close> and \<open>getAction\<close> return one of the legal actions and
  \<open>getValue\<close> the maximum Q-value, and none of them raises.
\<close>
theorem no_legal_actions_sentinel:
  "(getLegalActions ag s = [] \<longrightarrow>
      getValue ag s = (Inr 0, ag) \<and> getPolicy ag dt s = (Inr None, ag) \<and>
      getAction ag dt u r s = (Inr None, ag)) \<and>
   (getLegalActions ag s \<noteq> [] \<longrightarrow>
      (\<exists>a. a \<in> set (getLegalActions ag s) \<and> fst (getPolicy ag dt s) = Inr (Some a)) \<and>
      (\<exists>a. a \<in> set (getLegalActions ag s) \<and> fst (getAction ag dt u r s) = Inr (Some a)) \<and>
      fst (getValue ag s) =
        Inr (Max ((\<lambda>a. fst (getQValue ag s a)) ` set (getLegalActions ag s))))"
proof (intro conjI impI)
  assume ne: "getLegalActions ag s \<noteq> []"
  from getPolicy_legal [OF ne] show
    pol: "\<exists>a. a \<in> set (getLegalActions ag s) \<and> fst (getPolicy ag dt s) = Inr (Some a)"
    by (metis nth_mem)
  show "\<exists>a. a \<in> set (getLegalActions ag s) \<and> fst (getAction ag dt u r s) = Inr (Some a)"
  proof (cases "u \<le> epsilon ag")
    case True
    have "r mod length (getLegalActions ag s) < length (getLegalActions ag s)"
      using ne by simp
    then show ?thesis using ne True by (simp add: getAction_explore)
  next
    case False
    then show ?thesis using ne pol by (simp add: getAction_exploit)
  qed
  show "fst (getValue ag s) =
        Inr (Max ((\<lambda>a. fst (getQValue ag s a)) ` set (getLegalActions ag s)))"
    using ne by (simp add: getValue_fst getQValue_fst)
qed (simp_all add: getValue_def getPolicy_empty getAction_empty)

theorem no_legal_actions_sentinel_witness:
  "getLegalActions example_agent 5 = [] \<and>
   getValue example_agent 5 = (Inr 0, example_agent) \<and>
   getPolicy example_agent Exact 5 = (Inr None, example_agent) \<and>
   getAction example_agent Exact (1 / 2) 7 5 = (Inr None, example_agent) \<and>
   getLegalActions example_agent 1 \<noteq> [] \<and>
   fst (getPolicy example_agent Exact 1) = Inr (Some 2) \<and>
   fst (getAction example_agent Exact 0 7 1) = Inr (Some 2) \<and>
   fst (getValue example_agent 1) = Inr 10"
  using no_legal_actions_sentinel [where ag = example_agent and s = 5 and dt = Exact
      and u = "1 / 2" and r = 7]
    no_legal_actions_sentinel [where ag = example_agent and s = 1 and dt = Exact
      and u = 0 and r = 7]
  by (simp add: example_agent_fields example_actions_def getQValue_fst example_agent_stored)

text \<open>
  C9. \<open>update\<close> and \<open>getAction\<close> use the values the hyperparameter fields hold when
  they are called. Whatever an agent was constructed with, once \<open>alpha\<close> and
  \<open>discount\<close> have been assigned, \<open>update\<close> stores the value computed with the
  assigned numbers, and once \<open>epsilon\<close> has been assigned, \<open>getAction\<close> explores
  exactly when the draw is at most the assigned number.
\<close>
theorem hyperparameters_read_at_call:
  "(\<exists>v. fst (getValue ag n) = Inr v \<and>
      fst (getQValue (snd (update (ag\<lparr>alpha := al, discount := di\<rparr>) s a n rew)) s a) =
        (1 - al) * fst (getQValue ag s a) + al * (rew + di * v)) \<and>
   getAction (ag\<lparr>epsilon := ep\<rparr>) dt u r s =
     (if getLegalActions ag s = [] then (Inr None, ag\<lparr>epsilon := ep\<rparr>)
      else if u \<le> ep
        then (Inr (Some (getLegalActions ag s ! (r mod length (getLegalActions ag s)))),
              ag\<lparr>epsilon := ep\<rparr>)
        else getPolicy (ag\<lparr>epsilon := ep\<rparr>) dt s)"
proof (intro conjI)
  have "fst (getValue ag n) =
          Inr (if getLegalActions ag n = [] then 0
               else Max (stored (qValues ag) n ` set (getLegalActions ag n)))"
    by (simp add: getValue_fst)
  then show "\<exists>v. fst (getValue ag n) = Inr v \<and>
      fst (getQValue (snd (update (ag\<lparr>alpha := al, discount := di\<rparr>) s a n rew)) s a) =
        (1 - al) * fst (getQValue ag s a) + al * (rew + di * v)"
    by (simp add: getQValue_fst update_stored)
next
  show "getAction (ag\<lparr>epsilon := ep\<rparr>) dt u r s =
     (if getLegalActions ag s = [] then (Inr None, ag\<lparr>epsilon := ep\<rparr>)
      else if u \<le> ep
        then (Inr (Some (getLegalActions ag s ! (r mod length (getLegalActions ag s)))),
              ag\<lparr>epsilon := ep\<rparr>)
        else getPolicy (ag\<lparr>epsilon := ep\<rparr>) dt s)"
    by (simp add: getAction_empty getAction_explore getAction_exploit)
qed

theorem hyperparameters_read_at_call_witness:
  "fst (getQValue (snd (update example_agent 0 0 1 5)) 0 0) = 7 \<and>
   fst (getQValue (snd (update (example_agent\<lparr>alpha := 1, discount := 0\<rparr>) 0 0 1 5)) 0 0) = 5 \<and>
   fst (getAction example_agent Exact (1 / 2) 1 0) = Inr (Some 0) \<and>
   fst (getAction (example_agent\<lparr>epsilon := 1\<rparr>) Exact (1 / 2) 1 0) = Inr (Some 1)"
proof -
  have ne: "getLegalActions example_agent 0 \<noteq> []"
    by (simp add: example_agent_fields example_actions_def)
  have a: "fst (getQValue (snd (update example_agent 0 0 1 5)) 0 0) = 7"
    by (simp add: getQValue_fst update_stored example_agent_fields example_actions_def
        example_agent_stored)
  have nle: "\<not> 1 / 2 \<le> epsilon example_agent" by (simp add: example_agent_fields)
  have pol: "fst (getPolicy example_agent Exact 0) = Inr (Some 0)"
    unfolding getPolicy_fst [OF ne]
    by (simp add: example_agent_fields example_actions_def example_agent_stored)
  have b: "fst (getAction example_agent Exact (1 / 2) 1 0) = Inr (Some 0)"
    unfolding getAction_exploit [OF ne nle] by (rule pol)
  from a b hyperparameters_read_at_call [where ag = example_agent and n = 1 and al = 1
      and di = 0 and s = 0 and a = 0 and rew = 5 and ep = 1 and dt = Exact
      and u = "1 / 2" and r = 1]
  show ?thesis
    by (simp add: example_agent_fields example_actions_def getQValue_fst example_agent_stored)
qed

text \<open>
  C10. After \<open>update(s, a, nextState, reward)\<close>, \<open>getQValue(s', a')\<close> returns for
  every pair \<open>(s', a')\<close> other than \<open>(s, a)\<close> what it would have returned before the
  update.
\<close>
theorem update_frame:
  assumes "(s', a') \<noteq> (s, a)"
  shows "fst (getQValue (snd (update ag s a n rew)) s' a') = fst (getQValue ag s' a')"
  using assms by (auto simp: getQValue_fst update_stored)

theorem update_frame_witness:
  "((1::nat), (2::nat)) \<noteq> (0, 0) \<and>
   fst (getQValue (snd (update example_agent 0 0 1 5)) 1 2) = 10 \<and>
   fst (getQValue example_agent 1 2) = 10"
proof -
  have ne: "((1::nat), (2::nat)) \<noteq> (0, 0)" by simp
  have before: "fst (getQValue example_agent 1 2) = 10"
    by (simp add: example_agent_def getQValue_fst setQValue_stored)
  from update_frame [OF ne, of example_agent 1 5] before ne show ?thesis by simp
qed

end
